theory Spec2Isabelle
  imports Main "HOL-Library.AList" "HOL-Library.Sublist" "HOL-Library.Multiset"
begin

section \<open>Host-language primitives\<close>

text \<open>
  The TypeScript sources rely on a few JavaScript built-ins. Each one used by the
  modelled functions is written out here.

  \<^item> \<open>String.prototype.split\<close> with a one-character separator: the text is cut at
    every separator; the empty text yields one empty piece, and a trailing separator
    yields a trailing empty piece.
  \<^item> An array read \<open>xs[i]\<close> yields \<open>undefined\<close> outside the array.
  \<^item> \<open>v || ''\<close> on a value that is a string or \<open>undefined\<close>: \<open>undefined\<close> and the
    empty string are falsy, every other string is truthy.
  \<^item> \<open>Map\<close> keeps its keys in insertion order; \<open>set\<close> on a present key replaces the
    value in place. This is \<open>AList.update\<close> on an association list, with \<open>map_of\<close>
    for \<open>get\<close>/\<open>has\<close>.
  \<^item> \<open>Set\<close> keeps its members in insertion order; \<open>add\<close> of a present member does
    nothing.
\<close>

text \<open>
  The second branch of the \<open>case\<close> below is never taken, as the result of splitting is
  never the empty list (\<open>js_split_not_Nil\<close>).
\<close>

fun js_split :: "char \<Rightarrow> string \<Rightarrow> string list" where
  "js_split sep [] = [[]]"
| "js_split sep (c # cs) =
     (if c = sep then [] # js_split sep cs
      else (case js_split sep cs of
              piece # pieces \<Rightarrow> (c # piece) # pieces
            | [] \<Rightarrow> [[c]]))"

text \<open>\<open>Array.prototype.join\<close>, to state that splitting loses nothing.\<close>

fun js_join :: "char \<Rightarrow> string list \<Rightarrow> string" where
  "js_join sep [] = []"
| "js_join sep [piece] = piece"
| "js_join sep (piece # next_piece # pieces) = piece @ sep # js_join sep (next_piece # pieces)"

definition js_index :: "'a list \<Rightarrow> nat \<Rightarrow> 'a option" where
  "js_index xs i = (if i < length xs then Some (xs ! i) else None)"

definition truthy :: "string \<Rightarrow> bool" where
  "truthy s = (s \<noteq> [])"

definition or_empty :: "string option \<Rightarrow> string" where
  "or_empty v = (case v of None \<Rightarrow> [] | Some s \<Rightarrow> if truthy s then s else [])"

definition js_set_add :: "'a \<Rightarrow> 'a list \<Rightarrow> 'a list" where
  "js_set_add x S = (if x \<in> set S then S else S @ [x])"

definition firstSeen :: "'a list \<Rightarrow> 'a list" where
  "firstSeen xs = fold js_set_add xs []"

section \<open>Data model\<close>

datatype status = Added | Removed | Changed | Unchanged

text \<open>
  \<open>MetadataItem\<close> of the OrgCompare component. The optional fields of the interface
  are \<open>option\<close>s; \<open>status\<close> is one too, because the items handed to
  \<open>compareMetadata\<close> are built without it and receive it there.
\<close>

record MetadataItem =
  type :: string
  name :: string
  fullName :: string
  lastModifiedDate :: "string option"
  lastModifiedBy :: "string option"
  status :: "status option"
  sourceValue :: "string option"
  targetValue :: "string option"
  diff :: "string option"
  selected :: "bool option"
  statusBadgeClass :: "string option"
  lastModified :: "string option"

section \<open>Manifest builder: \<open>generatePackageXml\<close>\<close>

text \<open>
  The local \<open>metadataTypes\<close> of \<open>generatePackageXml\<close>: a \<open>Map\<close> from type to the
  array of names, filled by one pass over the items. A type seen for the first time
  gets an empty array at the end of the map; the name is then pushed onto the array
  stored under the type.
\<close>

definition metadataTypes_step ::
    "MetadataItem \<Rightarrow> (string \<times> string list) list \<Rightarrow> (string \<times> string list) list" where
  "metadataTypes_step item m =
     (let m1 = (if map_of m (type item) = None then AList.update (type item) [] m else m)
      in AList.map_entry (type item) (\<lambda>names. names @ [name item]) m1)"

definition metadataTypes :: "MetadataItem list \<Rightarrow> (string \<times> string list) list" where
  "metadataTypes items = fold metadataTypes_step items []"

definition members_line :: "string \<Rightarrow> string" where
  "members_line n = ''    <members>'' @ n @ ''</members>\<newline>''"

definition types_block :: "string \<times> string list \<Rightarrow> string \<Rightarrow> string" where
  "types_block entry packageXml =
     (case entry of (ty, names) \<Rightarrow>
        (let xml1 = packageXml @ ''  <types>\<newline>'';
             xml2 = fold (\<lambda>n xml. xml @ members_line n) names xml1;
             xml3 = xml2 @ ''    <name>'' @ ty @ ''</name>\<newline>''
         in xml3 @ ''  </types>\<newline>''))"

definition generatePackageXml :: "MetadataItem list \<Rightarrow> string" where
  "generatePackageXml items =
     (let xml0 = ''<?xml version=\"1.0\" encoding=\"UTF-8\"?>\<newline>'';
          xml1 = xml0 @ ''<Package xmlns=\"http://soap.sforce.com/2006/04/metadata\">\<newline>'';
          xml2 = fold types_block (metadataTypes items) xml1;
          xml3 = xml2 @ ''  <version>58.0</version>\<newline>''
      in xml3 @ ''</Package>'')"

text \<open>The two fixed parts of the output, for stating results.\<close>

definition envelope_open :: string where
  "envelope_open =
     ''<?xml version=\"1.0\" encoding=\"UTF-8\"?>\<newline>'' @
     ''<Package xmlns=\"http://soap.sforce.com/2006/04/metadata\">\<newline>''"

definition envelope_close :: string where
  "envelope_close = ''  <version>58.0</version>\<newline>'' @ ''</Package>''"

definition types_text :: "string \<times> string list \<Rightarrow> string" where
  "types_text entry =
     ''  <types>\<newline>'' @ concat (map members_line (snd entry)) @
     ''    <name>'' @ fst entry @ ''</name>\<newline>'' @ ''  </types>\<newline>''"

section \<open>Reconciler: \<open>compareMetadata\<close>\<close>

text \<open>
  Items are JavaScript objects: the arrays and maps hold references, and
  \<open>compareMetadata\<close> writes \<open>status\<close> and \<open>statusBadgeClass\<close> into the objects it
  classifies. The store maps a reference to the object's current fields; the function
  takes the store and returns the updated one together with the four arrays of
  references.
\<close>

type_synonym ref = nat
type_synonym heap = "ref \<Rightarrow> MetadataItem"

record MetadataComparison =
  added :: "ref list"
  removed :: "ref list"
  changed :: "ref list"
  unchanged :: "ref list"

text \<open>\<open>items.forEach(item => map.set(item.fullName, item))\<close> on a fresh map.\<close>

definition buildMap :: "heap \<Rightarrow> ref list \<Rightarrow> (string \<times> ref) list" where
  "buildMap h items = fold (\<lambda>item m. AList.update (fullName (h item)) item m) items []"

definition mark :: "status \<Rightarrow> string \<Rightarrow> ref \<Rightarrow> heap \<Rightarrow> heap" where
  "mark st badge item h =
     h(item := (h item)\<lparr>status := Some st, statusBadgeClass := Some badge\<rparr>)"

text \<open>
  Body of the first and of the second loop: an item whose key the other side's map
  lacks is marked and pushed. The first loop runs it over \<open>source\<close> against
  \<open>targetMap\<close> with \<open>added\<close>, the second over \<open>target\<close> against \<open>sourceMap\<close> with
  \<open>removed\<close>.
\<close>

definition only_here_step ::
    "status \<Rightarrow> string \<Rightarrow> (string \<times> ref) list \<Rightarrow> ref \<Rightarrow> heap \<times> ref list \<Rightarrow> heap \<times> ref list" where
  "only_here_step st badge otherMap item s =
     (case s of (h, acc) \<Rightarrow>
        if map_of otherMap (fullName (h item)) = None
        then (mark st badge item h, acc @ [item])
        else (h, acc))"

text \<open>
  Body of the third loop. \<open>targetMap.get\<close> yields an object or \<open>undefined\<close>, and an
  object is truthy, so \<open>if (targetItem)\<close> is the test for a present key.
\<close>

definition both_sides_step ::
    "(MetadataItem \<Rightarrow> MetadataItem \<Rightarrow> bool) \<Rightarrow> (string \<times> ref) list \<Rightarrow> ref \<Rightarrow>
     heap \<times> ref list \<times> ref list \<Rightarrow> heap \<times> ref list \<times> ref list" where
  "both_sides_step hasChanges targetMap sourceItem s =
     (case s of (h, chg, unchg) \<Rightarrow>
        (case map_of targetMap (fullName (h sourceItem)) of
           None \<Rightarrow> (h, chg, unchg)
         | Some targetItem \<Rightarrow>
             if hasChanges (h sourceItem) (h targetItem)
             then (mark Changed ''status-badge-changed'' sourceItem h, chg @ [sourceItem], unchg)
             else (mark Unchanged ''status-badge-unchanged'' sourceItem h, chg,
                   unchg @ [sourceItem])))"

text \<open>
  \<open>compareMetadata\<close> exists three times. Two copies, in the \<open>MetadataService\<close> class and
  in the OrgCompare component that feeds the diff viewer, walk the input arrays in the
  three loops above. They differ in the private \<open>hasChanges\<close> they call, which is a
  parameter here. That component copy also starts the asynchronous
  \<open>retrieveMetadataContent\<close> for a changed item; its writes happen after the
  synchronous \<open>compareMetadata\<close> has returned and are outside this model, as is the
  console logging. The third copy, in the other copy of the component, walks the two
  Maps instead and is modelled further below.
\<close>

definition compareMetadata ::
    "(MetadataItem \<Rightarrow> MetadataItem \<Rightarrow> bool) \<Rightarrow> heap \<Rightarrow> ref list \<Rightarrow> ref list \<Rightarrow>
     heap \<times> MetadataComparison" where
  "compareMetadata hasChanges h0 source target =
     (let sourceMap = buildMap h0 source;
          targetMap = buildMap h0 target;
          (h1, add) = fold (only_here_step Added ''status-badge-added'' targetMap) source (h0, []);
          (h2, rem) = fold (only_here_step Removed ''status-badge-removed'' sourceMap) target (h1, []);
          (h3, chg, unchg) = fold (both_sides_step hasChanges targetMap) source (h2, [], [])
      in (h3, \<lparr>added = add, removed = rem, changed = chg, unchanged = unchg\<rparr>))"

text \<open>\<open>hasChanges\<close> of the OrgCompare component.\<close>

definition OrgCompare_hasChanges :: "MetadataItem \<Rightarrow> MetadataItem \<Rightarrow> bool" where
  "OrgCompare_hasChanges source target = (sourceValue source \<noteq> sourceValue target)"

text \<open>
  \<open>hasChanges\<close> of \<open>MetadataService\<close>, whose comment reads: "Simple comparison - in real
  implementation, this would compare actual content".
\<close>

definition MetadataService_hasChanges :: "MetadataItem \<Rightarrow> MetadataItem \<Rightarrow> bool" where
  "MetadataService_hasChanges sourceItem targetItem =
     (lastModifiedDate sourceItem \<noteq> lastModifiedDate targetItem)"

definition OrgCompare_compareMetadata ::
    "heap \<Rightarrow> ref list \<Rightarrow> ref list \<Rightarrow> heap \<times> MetadataComparison" where
  "OrgCompare_compareMetadata = compareMetadata OrgCompare_hasChanges"

definition MetadataService_compareMetadata ::
    "heap \<Rightarrow> ref list \<Rightarrow> ref list \<Rightarrow> heap \<times> MetadataComparison" where
  "MetadataService_compareMetadata = compareMetadata MetadataService_hasChanges"

text \<open>
  The third copy of \<open>compareMetadata\<close>, in the copy of the OrgCompare component that
  builds a single array of diff lines. It fills the same two Maps and then iterates the
  entries of \<open>sourceMap\<close>, classifying each as added, changed or unchanged, and the
  entries of \<open>targetMap\<close>, collecting the removed ones. It writes \<open>status\<close>, and for a
  changed item \<open>targetValue\<close> and \<open>diff\<close>; it uses the component's \<open>hasChanges\<close>.
  \<open>generateDiff\<close> is the private helper that computes the \<open>diff\<close> text; \<open>!v\<close> holds of
  an absent and of an empty string.
\<close>

definition generateDiff :: "string option \<Rightarrow> string option \<Rightarrow> string" where
  "generateDiff sv tv =
     (if \<not> truthy (or_empty sv) \<or> \<not> truthy (or_empty tv)
      then ''Content not available for comparison''
      else if sv = tv then ''No changes''
      else ''Content has changed'')"

definition maps_source_step ::
    "(string \<times> ref) list \<Rightarrow> string \<times> ref \<Rightarrow>
     heap \<times> ref list \<times> ref list \<times> ref list \<Rightarrow> heap \<times> ref list \<times> ref list \<times> ref list" where
  "maps_source_step targetMap entry s =
     (case entry of (key, sourceItem) \<Rightarrow>
      (case s of (h, add, chg, unchg) \<Rightarrow>
        (case map_of targetMap key of
           None \<Rightarrow>
             (h(sourceItem := (h sourceItem)\<lparr>status := Some Added\<rparr>),
              add @ [sourceItem], chg, unchg)
         | Some targetItem \<Rightarrow>
             if OrgCompare_hasChanges (h sourceItem) (h targetItem)
             then (h(sourceItem := (h sourceItem)
                      \<lparr>status := Some Changed,
                       targetValue := sourceValue (h targetItem),
                       diff := Some (generateDiff (sourceValue (h sourceItem))
                                       (sourceValue (h targetItem)))\<rparr>),
                   add, chg @ [sourceItem], unchg)
             else (h(sourceItem := (h sourceItem)\<lparr>status := Some Unchanged\<rparr>),
                   add, chg, unchg @ [sourceItem]))))"

definition maps_target_step ::
    "(string \<times> ref) list \<Rightarrow> string \<times> ref \<Rightarrow> heap \<times> ref list \<Rightarrow> heap \<times> ref list" where
  "maps_target_step sourceMap entry s =
     (case entry of (key, targetItem) \<Rightarrow>
      (case s of (h, rem) \<Rightarrow>
        if map_of sourceMap key = None
        then (h(targetItem := (h targetItem)\<lparr>status := Some Removed\<rparr>), rem @ [targetItem])
        else (h, rem)))"

definition OrgCompare_compareMetadata_maps ::
    "heap \<Rightarrow> ref list \<Rightarrow> ref list \<Rightarrow> heap \<times> MetadataComparison" where
  "OrgCompare_compareMetadata_maps h0 source target =
     (let sourceMap = buildMap h0 source;
          targetMap = buildMap h0 target;
          (h1, add, chg, unchg) = fold (maps_source_step targetMap) sourceMap (h0, [], [], []);
          (h2, rem) = fold (maps_target_step sourceMap) targetMap (h1, [])
      in (h2, \<lparr>added = add, removed = rem, changed = chg, unchanged = unchg\<rparr>))"

text \<open>The values of the Map built from an array, in iteration order.\<close>

definition mapValues :: "heap \<Rightarrow> ref list \<Rightarrow> ref list" where
  "mapValues h items = map snd (buildMap h items)"

text \<open>The key of a reference, and the keys of the four arrays of a result.\<close>

definition key_of :: "heap \<Rightarrow> ref \<Rightarrow> string" where
  "key_of h r = fullName (h r)"

definition allItems :: "MetadataComparison \<Rightarrow> ref list" where
  "allItems cr = added cr @ removed cr @ changed cr @ unchanged cr"

section \<open>Line differencer: \<open>generateDiffContent\<close>\<close>

text \<open>
  The component's source is present in two copies whose \<open>generateDiffContent\<close>
  differ. The copy that feeds the diff viewer builds two columns of
  \<open>{lineNumber, content, type}\<close>; the other builds one array of
  \<open>{lineNumber, sourceContent, targetContent, type, diffLineClass}\<close>. Both split the
  two texts at newlines and walk the indices up to the longer length, and both
  return at once when no item is selected (\<open>None\<close> here: nothing is stored).
\<close>

record DiffViewerLine =
  lineNumber :: nat
  content :: string
  lineType :: status

record DiffViewerContent =
  sourceLines :: "DiffViewerLine list"
  targetLines :: "DiffViewerLine list"

record DiffLine =
  dl_lineNumber :: nat
  dl_sourceContent :: string
  dl_targetContent :: string
  dl_type :: status
  dl_diffLineClass :: string

text \<open>The \<open>type\<close> computed in the loop body of the diff-viewer copy.\<close>

definition viewer_lineType :: "string \<Rightarrow> string \<Rightarrow> status" where
  "viewer_lineType sourceLine targetLine =
     (if sourceLine \<noteq> targetLine then
        (if truthy sourceLine \<and> \<not> truthy targetLine then Added
         else if \<not> truthy sourceLine \<and> truthy targetLine then Removed
         else Changed)
      else Unchanged)"

definition viewer_diff :: "string \<Rightarrow> string \<Rightarrow> DiffViewerContent" where
  "viewer_diff sourceContent targetContent =
     (let srcLines = js_split CHR 0x0A sourceContent;
          tgtLines = js_split CHR 0x0A targetContent;
          maxLines = max (length srcLines) (length tgtLines);
          row = (\<lambda>i.
            let sourceLine = or_empty (js_index srcLines i);
                targetLine = or_empty (js_index tgtLines i);
                ty = viewer_lineType sourceLine targetLine
            in (\<lparr>lineNumber = i + 1, content = sourceLine, lineType = ty\<rparr>,
                \<lparr>lineNumber = i + 1, content = targetLine, lineType = ty\<rparr>));
          rows = map row [0..<maxLines]
      in \<lparr>sourceLines = map fst rows, targetLines = map snd rows\<rparr>)"

definition generateDiffContent_viewer :: "MetadataItem option \<Rightarrow> DiffViewerContent option" where
  "generateDiffContent_viewer selectedDiffItem =
     (case selectedDiffItem of
        None \<Rightarrow> None
      | Some item \<Rightarrow>
          Some (viewer_diff (or_empty (sourceValue item)) (or_empty (targetValue item))))"

text \<open>The \<open>type\<close> and \<open>diffLineClass\<close> computed in the loop body of the other copy.\<close>

definition lines_lineType :: "string \<Rightarrow> string \<Rightarrow> status \<times> string" where
  "lines_lineType sourceLine targetLine =
     (if sourceLine \<noteq> targetLine then
        (if truthy sourceLine \<and> \<not> truthy targetLine then (Removed, ''diff-line-removed'')
         else if \<not> truthy sourceLine \<and> truthy targetLine then (Added, ''diff-line-added'')
         else (Changed, ''diff-line-changed''))
      else (Unchanged, ''diff-line-unchanged''))"

definition lines_diff :: "string \<Rightarrow> string \<Rightarrow> DiffLine list" where
  "lines_diff sourceContent targetContent =
     (let srcLines = js_split CHR 0x0A sourceContent;
          tgtLines = js_split CHR 0x0A targetContent;
          maxLines = max (length srcLines) (length tgtLines)
      in map (\<lambda>i.
            let sourceLine = or_empty (js_index srcLines i);
                targetLine = or_empty (js_index tgtLines i);
                tc = lines_lineType sourceLine targetLine
            in \<lparr>dl_lineNumber = i + 1, dl_sourceContent = sourceLine,
                dl_targetContent = targetLine, dl_type = fst tc, dl_diffLineClass = snd tc\<rparr>)
          [0..<maxLines])"

definition generateDiffContent_lines :: "MetadataItem option \<Rightarrow> DiffLine list option" where
  "generateDiffContent_lines selectedDiffItem =
     (case selectedDiffItem of
        None \<Rightarrow> None
      | Some item \<Rightarrow>
          Some (lines_diff (or_empty (sourceValue item)) (or_empty (targetValue item))))"

text \<open>The line of a text at an index, empty beyond the text's last line.\<close>

definition line_at :: "string \<Rightarrow> nat \<Rightarrow> string" where
  "line_at text i = or_empty (js_index (js_split CHR 0x0A text) i)"

definition lineCount :: "string \<Rightarrow> nat" where
  "lineCount text = length (js_split CHR 0x0A text)"

section \<open>Dependency expander: \<open>autoWireDependencies\<close>\<close>

datatype autoWireKind = lwcFolder | apexMeta | objectFields | objectLayouts | fieldParentObject

record MetadataTypeConfig =
  cfg_type :: string
  displayName :: string
  icon :: "string option"
  autoWire :: "autoWireKind option"

definition METADATA_TYPES :: "MetadataTypeConfig list" where
  "METADATA_TYPES =
    [\<lparr>cfg_type = ''ApexClass'', displayName = ''Apex Class'', icon = Some ''utility:code'',
       autoWire = Some apexMeta\<rparr>,
     \<lparr>cfg_type = ''ApexTrigger'', displayName = ''Apex Trigger'', icon = Some ''utility:code'',
       autoWire = Some apexMeta\<rparr>,
     \<lparr>cfg_type = ''ApexPage'', displayName = ''Visualforce Page'', icon = Some ''utility:page'',
       autoWire = Some apexMeta\<rparr>,
     \<lparr>cfg_type = ''ApexComponent'', displayName = ''Apex Component'',
       icon = Some ''utility:component'', autoWire = Some apexMeta\<rparr>,
     \<lparr>cfg_type = ''CustomObject'', displayName = ''Custom Object'',
       icon = Some ''standard:custom_object'', autoWire = Some objectFields\<rparr>,
     \<lparr>cfg_type = ''CustomField'', displayName = ''Custom Field'',
       icon = Some ''standard:custom_object'', autoWire = Some fieldParentObject\<rparr>,
     \<lparr>cfg_type = ''Layout'', displayName = ''Layout'', icon = Some ''utility:layout'',
       autoWire = Some objectLayouts\<rparr>,
     \<lparr>cfg_type = ''LightningComponentBundle'', displayName = ''LWC'',
       icon = Some ''utility:lightning'', autoWire = Some lwcFolder\<rparr>,
     \<lparr>cfg_type = ''Profile'', displayName = ''Profile'', icon = Some ''standard:profile'',
       autoWire = None\<rparr>,
     \<lparr>cfg_type = ''PermissionSet'', displayName = ''Permission Set'',
       icon = Some ''standard:avatar'', autoWire = None\<rparr>]"

text \<open>
  What the callback of \<open>selectedItems.forEach\<close> adds to the set besides the item
  itself. The callback returns early when the item's type has no entry or the entry's
  \<open>autoWire\<close> is \<open>null\<close>; the \<open>switch\<close> has no case for \<open>objectLayouts\<close>; every case
  does nothing when \<open>this.comparisonResult\<close> is unset.
\<close>

definition relatedItems :: "heap \<Rightarrow> MetadataComparison option \<Rightarrow> ref \<Rightarrow> ref list" where
  "relatedItems h comparisonResult item =
     (case find (\<lambda>t. cfg_type t = type (h item)) METADATA_TYPES of
        None \<Rightarrow> []
      | Some typeConfig \<Rightarrow>
         (case autoWire typeConfig of
            None \<Rightarrow> []
          | Some lwcFolder \<Rightarrow>
             (case comparisonResult of
                None \<Rightarrow> []
              | Some cr \<Rightarrow>
                  filter (\<lambda>i. type (h i) = ''LightningComponentBundle'' \<and>
                               prefix (name (h item) @ ''/'') (name (h i)))
                    (allItems cr))
          | Some apexMeta \<Rightarrow>
             (case comparisonResult of
                None \<Rightarrow> []
              | Some cr \<Rightarrow>
                 (case find (\<lambda>i. type (h i) = type (h item) \<and>
                                  name (h i) = name (h item) @ ''-meta'')
                         (allItems cr) of
                    None \<Rightarrow> []
                  | Some metaItem \<Rightarrow> [metaItem]))
          | Some objectFields \<Rightarrow>
             (case comparisonResult of
                None \<Rightarrow> []
              | Some cr \<Rightarrow>
                  filter (\<lambda>i. (type (h i) = ''CustomField'' \<or> type (h i) = ''Layout'') \<and>
                               prefix (name (h item) @ ''.'') (name (h i)))
                    (allItems cr))
          | Some objectLayouts \<Rightarrow> []
          | Some fieldParentObject \<Rightarrow>
             (case comparisonResult of
                None \<Rightarrow> []
              | Some cr \<Rightarrow>
                 (let fieldNameParts = js_split CHR ''.'' (name (h item))
                  in if length fieldNameParts > 1 then
                       (case js_index fieldNameParts 0 of
                          None \<Rightarrow> []
                        | Some objectName \<Rightarrow>
                           (case find (\<lambda>i. type (h i) = ''CustomObject'' \<and>
                                            name (h i) = objectName)
                                   (allItems cr) of
                              None \<Rightarrow> []
                            | Some parentObject \<Rightarrow> [parentObject]))
                     else []))))"

definition autoWire_step ::
    "heap \<Rightarrow> MetadataComparison option \<Rightarrow> ref \<Rightarrow> ref list \<Rightarrow> ref list" where
  "autoWire_step h comparisonResult item autoWiredItems =
     fold js_set_add (relatedItems h comparisonResult item) (js_set_add item autoWiredItems)"

definition autoWireDependencies ::
    "heap \<Rightarrow> MetadataComparison option \<Rightarrow> ref list \<Rightarrow> ref list" where
  "autoWireDependencies h comparisonResult selectedItems =
     fold (autoWire_step h comparisonResult) selectedItems []"

section \<open>Notions used in the statements and proofs\<close>

text \<open>The names listed under a type: the names of the items of that type, in input order.\<close>

definition names_of :: "MetadataItem list \<Rightarrow> string \<Rightarrow> string list" where
  "names_of items t = map name (filter (\<lambda>i. type i = t) items)"

text \<open>
  An object without the two fields \<open>compareMetadata\<close> writes, two stores that agree on
  everything else, and a \<open>hasChanges\<close> that does not read those two fields.
\<close>

definition unmarked :: "MetadataItem \<Rightarrow> MetadataItem" where
  "unmarked i = i\<lparr>status := None, statusBadgeClass := None\<rparr>"

definition agree :: "heap \<Rightarrow> heap \<Rightarrow> bool" where
  "agree h h' = (\<forall>r. unmarked (h' r) = unmarked (h r))"

definition ignores_marks :: "(MetadataItem \<Rightarrow> MetadataItem \<Rightarrow> bool) \<Rightarrow> bool" where
  "ignores_marks hc = (\<forall>a b. hc a b = hc (unmarked a) (unmarked b))"

section \<open>Example data\<close>

text \<open>
  An object with only \<open>type\<close>, \<open>name\<close> and the conventional key \<open>type/name\<close> set, as the
  component's tests build them, and a store holding a list of objects at the
  references \<open>0, 1, 2, \<dots>\<close>.
\<close>

definition example_item :: "string \<Rightarrow> string \<Rightarrow> MetadataItem" where
  "example_item ty nm =
     \<lparr>type = ty, name = nm, fullName = ty @ ''/'' @ nm, lastModifiedDate = None,
      lastModifiedBy = None, status = None, sourceValue = None, targetValue = None,
      diff = None, selected = None, statusBadgeClass = None, lastModified = None\<rparr>"

definition example_heap :: "MetadataItem list \<Rightarrow> heap" where
  "example_heap objs r = (if r < length objs then objs ! r else example_item [] [])"

text \<open>
  References 0, 1 and 2 share the key \<open>ApexClass/Foo\<close>: 0 and 1 differ in content and
  share the modification date, 0 and 2 share the content and differ in the date.
\<close>

definition reconcile_heap :: heap where
  "reconcile_heap = example_heap
     [(example_item ''ApexClass'' ''Foo'')
        \<lparr>sourceValue := Some ''X'', lastModifiedDate := Some ''2024-01-01''\<rparr>,
      (example_item ''ApexClass'' ''Foo'')
        \<lparr>sourceValue := Some ''Y'', lastModifiedDate := Some ''2024-01-01''\<rparr>,
      (example_item ''ApexClass'' ''Foo'')
        \<lparr>sourceValue := Some ''X'', lastModifiedDate := Some ''2024-02-02''\<rparr>,
      example_item ''ApexClass'' ''Bar'',
      example_item ''CustomObject'' ''Account'']"

text \<open>
  A field, its parent object and a second field of that object, then an item whose
  type has a \<open>null\<close> rule and one whose type has no entry; all of them in the
  universe.
\<close>

definition wiring_heap :: heap where
  "wiring_heap = example_heap
     [example_item ''CustomField'' ''Account.Phone'',
      example_item ''CustomObject'' ''Account'',
      example_item ''CustomField'' ''Account.Fax'',
      example_item ''Profile'' ''Admin'',
      example_item ''Flow'' ''Onboarding'']"

definition wiring_universe :: "MetadataComparison option" where
  "wiring_universe = Some \<lparr>added = [0, 1, 2, 3, 4], removed = [], changed = [], unchanged = []\<rparr>"

section \<open>Insertion-ordered sets\<close>

lemma js_set_add_set: "set (js_set_add x S) = insert x (set S)"
  by (auto simp: js_set_add_def)

lemma js_set_add_distinct: "distinct S \<Longrightarrow> distinct (js_set_add x S)"
  by (simp add: js_set_add_def)

lemma firstSeen_snoc: "firstSeen (xs @ [x]) = js_set_add x (firstSeen xs)"
  by (simp add: firstSeen_def)

lemma firstSeen_set: "set (firstSeen xs) = set xs"
  by (induction xs rule: rev_induct) (simp_all add: firstSeen_snoc js_set_add_set, simp add: firstSeen_def)

lemma firstSeen_distinct: "distinct (firstSeen xs)"
  by (induction xs rule: rev_induct) (simp_all add: firstSeen_snoc js_set_add_distinct, simp add: firstSeen_def)

section \<open>Results about the manifest builder\<close>

lemma fold_members_line:
  "fold (\<lambda>n xml. xml @ members_line n) names acc = acc @ concat (map members_line names)"
  by (induction names arbitrary: acc) simp_all

lemma types_block_text: "types_block entry acc = acc @ types_text entry"
  by (cases entry) (simp add: types_block_def types_text_def fold_members_line Let_def)

lemma fold_types_block:
  "fold types_block entries acc = acc @ concat (map types_text entries)"
  by (induction entries arbitrary: acc) (simp_all add: types_block_text)

lemma generatePackageXml_layout:
  "generatePackageXml items =
     envelope_open @ concat (map types_text (metadataTypes items)) @ envelope_close"
  by (simp add: generatePackageXml_def envelope_open_def envelope_close_def
      fold_types_block Let_def)

lemma map_of_tabulate_None: "map_of (map (\<lambda>t. (t, f t)) ks) k = None \<longleftrightarrow> k \<notin> set ks"
  by (induction ks) auto

lemma update_tabulate_fresh:
  "k \<notin> set ks \<Longrightarrow> AList.update k v (map (\<lambda>t. (t, f t)) ks) = map (\<lambda>t. (t, f t)) ks @ [(k, v)]"
  by (induction ks) auto

lemma map_entry_tabulate:
  "distinct ks \<Longrightarrow>
   AList.map_entry k g (map (\<lambda>t. (t, f t)) ks) = map (\<lambda>t. (t, if t = k then g (f t) else f t)) ks"
  by (induction ks) auto

lemma metadataTypes_snoc: "metadataTypes (xs @ [x]) = metadataTypes_step x (metadataTypes xs)"
  by (simp add: metadataTypes_def)

lemma metadataTypes_grouped:
  "metadataTypes items = map (\<lambda>t. (t, names_of items t)) (firstSeen (map type items))"
proof (induction items rule: rev_induct)
  case Nil
  show ?case by (simp add: metadataTypes_def firstSeen_def)
next
  case (snoc x xs)
  let ?ks = "firstSeen (map type xs)"
  have names: "names_of (xs @ [x]) t = (if t = type x then names_of xs t @ [name x] else names_of xs t)" for t
    by (auto simp: names_of_def)
  show ?case
  proof (cases "type x \<in> set (map type xs)")
    case True
    then have mem: "type x \<in> set ?ks" by (simp add: firstSeen_set)
    then have ks: "firstSeen (map type (xs @ [x])) = ?ks"
      by (simp add: firstSeen_snoc js_set_add_def)
    have "metadataTypes (xs @ [x]) =
        AList.map_entry (type x) (\<lambda>ns. ns @ [name x]) (map (\<lambda>t. (t, names_of xs t)) ?ks)"
      using mem by (simp add: metadataTypes_snoc metadataTypes_step_def snoc.IH map_of_tabulate_None)
    also have "\<dots> = map (\<lambda>t. (t, names_of (xs @ [x]) t)) ?ks"
      by (simp add: map_entry_tabulate firstSeen_distinct names)
    finally show ?thesis by (simp only: ks)
  next
    case False
    then have nmem: "type x \<notin> set ?ks" by (simp add: firstSeen_set)
    then have ks: "firstSeen (map type (xs @ [x])) = ?ks @ [type x]"
      by (simp add: firstSeen_snoc js_set_add_def)
    have empty: "names_of xs (type x) = []"
      proof -
      have "\<forall>i\<in>set xs. type i \<noteq> type x" using False by (metis image_eqI list.set_map)
      then show ?thesis by (simp add: names_of_def filter_empty_conv)
    qed
    have "metadataTypes (xs @ [x]) =
        AList.map_entry (type x) (\<lambda>ns. ns @ [name x])
          (map (\<lambda>t. (t, names_of xs t)) ?ks @ [(type x, names_of xs (type x))])"
      using nmem by (simp add: metadataTypes_snoc metadataTypes_step_def snoc.IH
          map_of_tabulate_None update_tabulate_fresh empty)
    also have "\<dots> = AList.map_entry (type x) (\<lambda>ns. ns @ [name x])
          (map (\<lambda>t. (t, names_of xs t)) (?ks @ [type x]))"
      by simp
    also have "\<dots> = map (\<lambda>t. (t, names_of (xs @ [x]) t)) (?ks @ [type x])"
      using nmem by (subst map_entry_tabulate) (simp_all add: firstSeen_distinct names)
    finally show ?thesis by (simp only: ks)
  qed
qed

text \<open>
  C10. On the empty item list \<open>generatePackageXml\<close> returns exactly the envelope: the XML
  declaration line, the \<open>Package\<close> open tag with the metadata namespace, the line
  \<open>  <version>58.0</version>\<close> and the closing \<open></Package>\<close>, with no \<open><types>\<close>
  block. On every item list the output is the same two opening lines, then the
  \<open><types>\<close> blocks, then the same version line and closing tag.
\<close>

theorem generatePackageXml_envelope:
  "generatePackageXml [] =
     ''<?xml version=\"1.0\" encoding=\"UTF-8\"?>\<newline><Package xmlns=\"http://soap.sforce.com/2006/04/metadata\">\<newline>  <version>58.0</version>\<newline></Package>''
   \<and> generatePackageXml items =
         ''<?xml version=\"1.0\" encoding=\"UTF-8\"?>\<newline><Package xmlns=\"http://soap.sforce.com/2006/04/metadata\">\<newline>''
         @ concat (map types_text (metadataTypes items)) @ ''  <version>58.0</version>\<newline></Package>''"
proof
  show "generatePackageXml [] =
     ''<?xml version=\"1.0\" encoding=\"UTF-8\"?>\<newline><Package xmlns=\"http://soap.sforce.com/2006/04/metadata\">\<newline>  <version>58.0</version>\<newline></Package>''"
    by (simp add: generatePackageXml_def metadataTypes_def)
  show "generatePackageXml items =
         ''<?xml version=\"1.0\" encoding=\"UTF-8\"?>\<newline><Package xmlns=\"http://soap.sforce.com/2006/04/metadata\">\<newline>''
         @ concat (map types_text (metadataTypes items)) @ ''  <version>58.0</version>\<newline></Package>''"
    by (simp add: generatePackageXml_layout envelope_open_def envelope_close_def)
qed

text \<open>
  C2, as stated, fails: the output follows the order of the input. Two items of
  different types, listed in the two possible orders, give different manifests.
\<close>

theorem generatePackageXml_shuffle_counterexample:
  "mset [example_item ''CustomObject'' ''Account'', example_item ''ApexClass'' ''Foo''] =
   mset [example_item ''ApexClass'' ''Foo'', example_item ''CustomObject'' ''Account''] \<and>
   generatePackageXml [example_item ''CustomObject'' ''Account'', example_item ''ApexClass'' ''Foo''] \<noteq>
   generatePackageXml [example_item ''ApexClass'' ''Foo'', example_item ''CustomObject'' ''Account'']"
  by (simp add: generatePackageXml_def metadataTypes_def metadataTypes_step_def types_block_def
      members_line_def example_item_def)

text \<open>
  C2, amended. \<open>generatePackageXml\<close> lists the types in the order of their first
  occurrence and, under each type, the names in input order. Two item lists that agree
  on the order in which the types first occur and on the sequence of names of every
  type yield identical manifests, byte for byte; in particular a reordering that keeps
  both leaves the output unchanged. The condition is stated as sufficient only.
\<close>

theorem generatePackageXml_same_grouping:
  assumes "firstSeen (map type items) = firstSeen (map type items')"
    and "\<And>t. names_of items t = names_of items' t"
  shows "generatePackageXml items = generatePackageXml items'"
  using assms by (simp add: generatePackageXml_layout metadataTypes_grouped)

text \<open>
  Witness for C2: the third item moves in front of the second; the types still first
  occur in the order \<open>ApexClass\<close>, \<open>CustomObject\<close>, and \<open>Foo\<close> still precedes \<open>Bar\<close>.
\<close>

theorem generatePackageXml_same_grouping_witness:
  "generatePackageXml
     [example_item ''ApexClass'' ''Foo'', example_item ''CustomObject'' ''Account'',
      example_item ''ApexClass'' ''Bar''] =
   generatePackageXml
     [example_item ''ApexClass'' ''Foo'', example_item ''ApexClass'' ''Bar'',
      example_item ''CustomObject'' ''Account'']"
proof (rule generatePackageXml_same_grouping)
  show "firstSeen (map type [example_item ''ApexClass'' ''Foo'', example_item ''CustomObject'' ''Account'',
      example_item ''ApexClass'' ''Bar'']) = firstSeen (map type [example_item ''ApexClass'' ''Foo'', example_item ''ApexClass'' ''Bar'',
      example_item ''CustomObject'' ''Account''])"
    by (simp add: firstSeen_def js_set_add_def example_item_def)
  show "names_of [example_item ''ApexClass'' ''Foo'', example_item ''CustomObject'' ''Account'',
      example_item ''ApexClass'' ''Bar''] t = names_of [example_item ''ApexClass'' ''Foo'', example_item ''ApexClass'' ''Bar'',
      example_item ''CustomObject'' ''Account''] t" for t
    by (auto simp: names_of_def example_item_def)
qed

text \<open>
  C6, as stated, fails: two items with the same type and the same name give two
  \<open><members>\<close> lines.
\<close>

theorem generatePackageXml_duplicate_counterexample:
  "generatePackageXml [example_item ''ApexClass'' ''Foo'', example_item ''ApexClass'' ''Foo''] =
     ''<?xml version=\"1.0\" encoding=\"UTF-8\"?>\<newline><Package xmlns=\"http://soap.sforce.com/2006/04/metadata\">\<newline>  <types>\<newline>    <members>Foo</members>\<newline>    <members>Foo</members>\<newline>    <name>ApexClass</name>\<newline>  </types>\<newline>  <version>58.0</version>\<newline></Package>''"
  by (simp add: generatePackageXml_def metadataTypes_def metadataTypes_step_def types_block_def
      members_line_def example_item_def)

lemma count_list_names_of:
  "count_list (names_of items t) n = length (filter (\<lambda>i. type i = t \<and> name i = n) items)"
  by (induction items) (simp_all add: names_of_def)

text \<open>
  C6, amended. \<open>generatePackageXml\<close> pushes one name per item and never removes one:
  the manifest has one \<open><types>\<close> block per type, in order of first occurrence, and the
  block of a type lists the name of every item of that type, in input order. A name is
  therefore listed under a type as many times as the input holds items with that type
  and that name, and exactly once only when the input holds exactly one.
\<close>

theorem generatePackageXml_one_member_per_item:
  "generatePackageXml items =
     envelope_open @
     concat (map (\<lambda>t. types_text (t, names_of items t)) (firstSeen (map type items))) @
     envelope_close
   \<and> count_list (names_of items t) n = length (filter (\<lambda>i. type i = t \<and> name i = n) items)"
  by (simp add: generatePackageXml_layout metadataTypes_grouped count_list_names_of comp_def)

section \<open>Results about the reconciler\<close>

lemma agree_refl: "agree h h"
  by (simp add: agree_def)

lemma agree_mark: "agree h0 h \<Longrightarrow> agree h0 (mark st badge item h)"
  by (simp add: agree_def mark_def unmarked_def)

lemma agree_fullName: "agree h0 h \<Longrightarrow> fullName (h r) = fullName (h0 r)"
proof -
  assume "agree h0 h"
  then have "unmarked (h r) = unmarked (h0 r)" by (simp add: agree_def)
  then have "fullName (unmarked (h r)) = fullName (unmarked (h0 r))" by simp
  then show ?thesis by (simp add: unmarked_def)
qed

lemma buildMap_snoc:
  "buildMap h (xs @ [x]) = AList.update (fullName (h x)) x (buildMap h xs)"
  by (simp add: buildMap_def)

lemma buildMap_None: "map_of (buildMap h xs) k = None \<longleftrightarrow> k \<notin> key_of h ` set xs"
proof (induction xs rule: rev_induct)
  case Nil
  show ?case by (simp add: buildMap_def)
next
  case (snoc x xs)
  then show ?case by (auto simp: buildMap_snoc update_conv' key_of_def)
qed

lemma only_here_step_apply:
  "only_here_step st badge M x (h, acc) =
     (if map_of M (fullName (h x)) = None then (mark st badge x h, acc @ [x]) else (h, acc))"
  by (simp add: only_here_step_def)

lemma both_sides_step_apply:
  "both_sides_step hc M x (h, c, u) =
     (case map_of M (fullName (h x)) of
        None \<Rightarrow> (h, c, u)
      | Some t \<Rightarrow>
          if hc (h x) (h t)
          then (mark Changed ''status-badge-changed'' x h, c @ [x], u)
          else (mark Unchanged ''status-badge-unchanged'' x h, c, u @ [x]))"
  by (simp add: both_sides_step_def)

lemma only_here_fold:
  assumes "agree h0 h"
  shows "\<exists>h'. agree h0 h' \<and>
           fold (only_here_step st badge M) xs (h, acc) =
             (h', acc @ filter (\<lambda>r. map_of M (fullName (h0 r)) = None) xs)"
  using assms
proof (induction xs arbitrary: h acc)
  case Nil
  then show ?case by simp
next
  case (Cons x xs)
  show ?case
  proof (cases "map_of M (fullName (h0 x))")
    case None
    have "agree h0 (mark st badge x h)" using Cons.prems by (rule agree_mark)
    from Cons.IH [OF this, of "acc @ [x]"] None Cons.prems show ?thesis
      by (simp add: only_here_step_apply agree_fullName)
  next
    case (Some t)
    from Cons.IH [OF Cons.prems, of acc] Some Cons.prems show ?thesis
      by (simp add: only_here_step_apply agree_fullName)
  qed
qed

lemma both_sides_fold:
  assumes "agree h0 h"
  shows "\<exists>h' c' u'. agree h0 h' \<and>
           fold (both_sides_step hc M) xs (h, c, u) = (h', c', u') \<and>
           mset c' + mset u' =
             mset c + mset u + mset (filter (\<lambda>r. map_of M (fullName (h0 r)) \<noteq> None) xs)"
  using assms
proof (induction xs arbitrary: h c u)
  case Nil
  then show ?case by simp
next
  case (Cons x xs)
  show ?case
  proof (cases "map_of M (fullName (h0 x))")
    case None
    from Cons.IH [OF Cons.prems, of c u] None Cons.prems show ?thesis
      by (simp add: both_sides_step_apply agree_fullName)
  next
    case (Some t)
    show ?thesis
    proof (cases "hc (h x) (h t)")
      case True
      have "agree h0 (mark Changed ''status-badge-changed'' x h)"
        using Cons.prems by (rule agree_mark)
      from Cons.IH [OF this, of "c @ [x]" u] Some True Cons.prems show ?thesis
        by (simp add: both_sides_step_apply agree_fullName)
    next
      case False
      have "agree h0 (mark Unchanged ''status-badge-unchanged'' x h)"
        using Cons.prems by (rule agree_mark)
      from Cons.IH [OF this, of c "u @ [x]"] Some False Cons.prems show ?thesis
        by (simp add: both_sides_step_apply agree_fullName)
    qed
  qed
qed

lemma compareMetadata_parts:
  "\<exists>h' cr. compareMetadata hc h source target = (h', cr) \<and> agree h h' \<and>
     added cr = filter (\<lambda>r. key_of h r \<notin> key_of h ` set target) source \<and>
     removed cr = filter (\<lambda>r. key_of h r \<notin> key_of h ` set source) target \<and>
     mset (changed cr) + mset (unchanged cr) =
       mset (filter (\<lambda>r. key_of h r \<in> key_of h ` set target) source)"
proof -
  obtain h1 where h1: "agree h h1"
    and p1: "fold (only_here_step Added ''status-badge-added'' (buildMap h target)) source (h, []) =
       (h1, [] @ filter (\<lambda>r. map_of (buildMap h target) (fullName (h r)) = None) source)"
    using only_here_fold [OF agree_refl] by blast
  obtain h2 where h2: "agree h h2"
    and p2: "fold (only_here_step Removed ''status-badge-removed'' (buildMap h source)) target (h1, []) =
       (h2, [] @ filter (\<lambda>r. map_of (buildMap h source) (fullName (h r)) = None) target)"
    using only_here_fold [OF h1] by blast
  obtain h3 c u where h3: "agree h h3"
    and p3: "fold (both_sides_step hc (buildMap h target)) source (h2, [], []) = (h3, c, u)"
    and m3: "mset c + mset u = mset [] + mset [] +
       mset (filter (\<lambda>r. map_of (buildMap h target) (fullName (h r)) \<noteq> None) source)"
    using both_sides_fold [OF h2] by blast
  have "compareMetadata hc h source target =
      (h3, \<lparr>added = filter (\<lambda>r. map_of (buildMap h target) (fullName (h r)) = None) source,
            removed = filter (\<lambda>r. map_of (buildMap h source) (fullName (h r)) = None) target,
            changed = c, unchanged = u\<rparr>)"
    by (simp add: compareMetadata_def p1 p2 p3)
  with h3 m3 show ?thesis
    by (simp add: buildMap_None key_of_def)
qed

lemma both_sides_fold_exact:
  assumes inv: "ignores_marks hc"
    and "agree h0 h"
  shows "\<exists>h'. agree h0 h' \<and>
           fold (both_sides_step hc M) xs (h, c, u) =
             (h',
              c @ filter (\<lambda>r. case map_of M (fullName (h0 r)) of
                                  None \<Rightarrow> False | Some t \<Rightarrow> hc (h0 r) (h0 t)) xs,
              u @ filter (\<lambda>r. case map_of M (fullName (h0 r)) of
                                  None \<Rightarrow> False | Some t \<Rightarrow> \<not> hc (h0 r) (h0 t)) xs)"
  using assms(2)
proof (induction xs arbitrary: h c u)
  case Nil
  then show ?case by simp
next
  case (Cons x xs)
  show ?case
  proof (cases "map_of M (fullName (h0 x))")
    case None
    from Cons.IH [OF Cons.prems, of c u] None Cons.prems show ?thesis
      by (simp add: both_sides_step_apply agree_fullName)
  next
    case (Some t)
    have "hc (h x) (h t) = hc (unmarked (h x)) (unmarked (h t))"
      using inv by (simp add: ignores_marks_def)
    also have "\<dots> = hc (unmarked (h0 x)) (unmarked (h0 t))"
      using Cons.prems by (simp add: agree_def)
    also have "\<dots> = hc (h0 x) (h0 t)"
      using inv by (simp add: ignores_marks_def)
    finally have same: "hc (h x) (h t) = hc (h0 x) (h0 t)" .
    show ?thesis
    proof (cases "hc (h0 x) (h0 t)")
      case True
      have "agree h0 (mark Changed ''status-badge-changed'' x h)"
        using Cons.prems by (rule agree_mark)
      from Cons.IH [OF this, of "c @ [x]" u] Some True same Cons.prems show ?thesis
        by (simp add: both_sides_step_apply agree_fullName)
    next
      case False
      have "agree h0 (mark Unchanged ''status-badge-unchanged'' x h)"
        using Cons.prems by (rule agree_mark)
      from Cons.IH [OF this, of c "u @ [x]"] Some False same Cons.prems show ?thesis
        by (simp add: both_sides_step_apply agree_fullName)
    qed
  qed
qed

lemma compareMetadata_both_sides:
  assumes inv: "ignores_marks hc"
  shows "changed (snd (compareMetadata hc h source target)) =
           filter (\<lambda>r. case map_of (buildMap h target) (key_of h r) of
                          None \<Rightarrow> False | Some t \<Rightarrow> hc (h r) (h t)) source \<and>
         unchanged (snd (compareMetadata hc h source target)) =
           filter (\<lambda>r. case map_of (buildMap h target) (key_of h r) of
                          None \<Rightarrow> False | Some t \<Rightarrow> \<not> hc (h r) (h t)) source"
proof -
  obtain h1 a where p1:
    "fold (only_here_step Added ''status-badge-added'' (buildMap h target)) source (h, []) = (h1, a)"
    and h1: "agree h h1"
    using only_here_fold [OF agree_refl] by blast
  obtain h2 b where p2:
    "fold (only_here_step Removed ''status-badge-removed'' (buildMap h source)) target (h1, []) = (h2, b)"
    and h2: "agree h h2"
    using only_here_fold [OF h1] by blast
  obtain h3 where p3: "fold (both_sides_step hc (buildMap h target)) source (h2, [], []) =
      (h3,
       [] @ filter (\<lambda>r. case map_of (buildMap h target) (fullName (h r)) of
                            None \<Rightarrow> False | Some t \<Rightarrow> hc (h r) (h t)) source,
       [] @ filter (\<lambda>r. case map_of (buildMap h target) (fullName (h r)) of
                            None \<Rightarrow> False | Some t \<Rightarrow> \<not> hc (h r) (h t)) source)"
    using both_sides_fold_exact [OF inv h2] by blast
  show ?thesis
    by (simp add: compareMetadata_def p1 p2 p3 key_of_def)
qed

lemma buildMap_Some:
  "distinct (map (key_of h) xs) \<Longrightarrow> x \<in> set xs \<Longrightarrow> map_of (buildMap h xs) (key_of h x) = Some x"
proof (induction xs rule: rev_induct)
  case Nil
  then show ?case by simp
next
  case (snoc y ys)
  show ?case
  proof (cases "x = y")
    case True
    then show ?thesis by (simp add: buildMap_snoc update_conv' key_of_def)
  next
    case False
    with snoc.prems have mem: "x \<in> set ys" and d: "distinct (map (key_of h) ys)"
      and fresh: "key_of h y \<notin> key_of h ` set ys"
      by auto
    from mem fresh have "key_of h x \<noteq> key_of h y" by (metis imageI)
    with snoc.IH [OF d mem] show ?thesis
      by (simp add: buildMap_snoc update_conv' key_of_def)
  qed
qed

lemma OrgCompare_hasChanges_ignores_marks: "ignores_marks OrgCompare_hasChanges"
  by (simp add: ignores_marks_def OrgCompare_hasChanges_def unmarked_def)

lemma MetadataService_hasChanges_ignores_marks: "ignores_marks MetadataService_hasChanges"
  by (simp add: ignores_marks_def MetadataService_hasChanges_def unmarked_def)

text \<open>
  The component's \<open>hasChanges\<close> compares the two \<open>sourceValue\<close> fields as optional
  values: an absent content differs from every present one and equals only another
  absent one. With unique target keys, a source item whose key a target item shares is
  in \<open>changed\<close> exactly when the two contents differ and in \<open>unchanged\<close> otherwise.
\<close>

lemma OrgCompare_classifies_by_content:
  assumes "s \<in> set source" and "t \<in> set target" and "key_of h s = key_of h t"
    and "distinct (map (key_of h) target)"
  shows "(s \<in> set (changed (snd (OrgCompare_compareMetadata h source target)))) =
           (sourceValue (h s) \<noteq> sourceValue (h t))"
    and "(s \<in> set (unchanged (snd (OrgCompare_compareMetadata h source target)))) =
           (sourceValue (h s) = sourceValue (h t))"
proof -
  have look: "map_of (buildMap h target) (key_of h s) = Some t"
    using assms by (simp add: buildMap_Some)
  note parts = compareMetadata_both_sides [of OrgCompare_hasChanges h source target,
      OF OrgCompare_hasChanges_ignores_marks]
  show "(s \<in> set (changed (snd (OrgCompare_compareMetadata h source target)))) =
           (sourceValue (h s) \<noteq> sourceValue (h t))"
    using assms(1) look parts by (simp add: OrgCompare_compareMetadata_def OrgCompare_hasChanges_def)
  show "(s \<in> set (unchanged (snd (OrgCompare_compareMetadata h source target)))) =
           (sourceValue (h s) = sourceValue (h t))"
    using assms(1) look parts by (simp add: OrgCompare_compareMetadata_def OrgCompare_hasChanges_def)
qed

lemma agree_key_of: "agree h h' \<Longrightarrow> key_of h' = key_of h"
  by (rule ext) (simp add: key_of_def agree_fullName)

text \<open>The copy that walks the Maps.\<close>

lemma maps_source_step_apply:
  "maps_source_step M (k, x) (h, a, c, u) =
     (case map_of M k of
        None \<Rightarrow> (h(x := (h x)\<lparr>status := Some Added\<rparr>), a @ [x], c, u)
      | Some t \<Rightarrow>
          if OrgCompare_hasChanges (h x) (h t)
          then (h(x := (h x)\<lparr>status := Some Changed, targetValue := sourceValue (h t),
                   diff := Some (generateDiff (sourceValue (h x)) (sourceValue (h t)))\<rparr>),
                a, c @ [x], u)
          else (h(x := (h x)\<lparr>status := Some Unchanged\<rparr>), a, c, u @ [x]))"
  by (simp add: maps_source_step_def)

lemma maps_target_step_apply:
  "maps_target_step M (k, x) (h, r) =
     (if map_of M k = None then (h(x := (h x)\<lparr>status := Some Removed\<rparr>), r @ [x]) else (h, r))"
  by (simp add: maps_target_step_def)

lemma maps_source_fold:
  "\<exists>h' a' c' u'. fold (maps_source_step M) es (h, a, c, u) = (h', a', c', u') \<and>
     a' = a @ map snd (filter (\<lambda>e. map_of M (fst e) = None) es) \<and>
     mset c' + mset u' = mset c + mset u + mset (map snd (filter (\<lambda>e. map_of M (fst e) \<noteq> None) es))"
proof (induction es arbitrary: h a c u)
  case Nil
  show ?case by simp
next
  case (Cons e es)
  obtain h1 a1 c1 u1 where s1: "maps_source_step M e (h, a, c, u) = (h1, a1, c1, u1)"
    by (metis prod_cases4)
  have a1: "a1 = a @ map snd (filter (\<lambda>e. map_of M (fst e) = None) [e])"
    using s1 by (cases e) (auto simp: maps_source_step_apply split: option.splits if_splits)
  have m1: "mset c1 + mset u1 =
      mset c + mset u + mset (map snd (filter (\<lambda>e. map_of M (fst e) \<noteq> None) [e]))"
    using s1 by (cases e) (auto simp: maps_source_step_apply split: option.splits if_splits)
  from Cons.IH [of h1 a1 c1 u1] obtain h' a' c' u' where
    f: "fold (maps_source_step M) es (h1, a1, c1, u1) = (h', a', c', u')"
    and a': "a' = a1 @ map snd (filter (\<lambda>e. map_of M (fst e) = None) es)"
    and m': "mset c' + mset u' =
      mset c1 + mset u1 + mset (map snd (filter (\<lambda>e. map_of M (fst e) \<noteq> None) es))"
    by blast
  have "fold (maps_source_step M) (e # es) (h, a, c, u) = (h', a', c', u')"
    using s1 f by simp
  moreover have "a' = a @ map snd (filter (\<lambda>e. map_of M (fst e) = None) (e # es))"
    using a' a1 by simp
  moreover have "mset c' + mset u' =
      mset c + mset u + mset (map snd (filter (\<lambda>e. map_of M (fst e) \<noteq> None) (e # es)))"
    using m' m1 by simp
  ultimately show ?case by blast
qed

lemma maps_target_fold:
  "\<exists>h'. fold (maps_target_step M) es (h, r) =
     (h', r @ map snd (filter (\<lambda>e. map_of M (fst e) = None) es))"
proof (induction es arbitrary: h r)
  case Nil
  show ?case by simp
next
  case (Cons e es)
  obtain h1 r1 where s1: "maps_target_step M e (h, r) = (h1, r1)"
    by (metis surj_pair)
  have r1: "r1 = r @ map snd (filter (\<lambda>e. map_of M (fst e) = None) [e])"
    using s1 by (cases e) (auto simp: maps_target_step_apply split: if_splits)
  from Cons.IH [of h1 r1] obtain h' where
    f: "fold (maps_target_step M) es (h1, r1) =
      (h', r1 @ map snd (filter (\<lambda>e. map_of M (fst e) = None) es))"
    by blast
  have "fold (maps_target_step M) (e # es) (h, r) =
      (h', r @ map snd (filter (\<lambda>e. map_of M (fst e) = None) (e # es)))"
    using s1 f r1 by simp
  then show ?case by blast
qed

lemma update_tabulate_present:
  "distinct ks \<Longrightarrow> k \<in> set ks \<Longrightarrow>
   AList.update k v (map (\<lambda>t. (t, f t)) ks) = map (\<lambda>t. (t, if t = k then v else f t)) ks"
  by (induction ks) auto

lemma buildMap_entries:
  "buildMap h xs =
     map (\<lambda>k. (k, last (filter (\<lambda>r. key_of h r = k) xs))) (firstSeen (map (key_of h) xs))"
proof (induction xs rule: rev_induct)
  case Nil
  show ?case by (simp add: buildMap_def firstSeen_def)
next
  case (snoc x xs)
  let ?ks = "firstSeen (map (key_of h) xs)"
  let ?f = "\<lambda>ys k. last (filter (\<lambda>r. key_of h r = k) ys)"
  have f: "?f (xs @ [x]) k = (if k = key_of h x then x else ?f xs k)" for k
    by auto
  have step: "buildMap h (xs @ [x]) = AList.update (key_of h x) x (map (\<lambda>k. (k, ?f xs k)) ?ks)"
  proof -
    have kh: "fullName (h x) = key_of h x" by (simp add: key_of_def)
    show ?thesis by (simp only: buildMap_snoc snoc.IH kh)
  qed
  show ?case
  proof (cases "key_of h x \<in> set (map (key_of h) xs)")
    case True
    then have mem: "key_of h x \<in> set ?ks" by (simp add: firstSeen_set)
    then have ks: "firstSeen (map (key_of h) (xs @ [x])) = ?ks"
      by (simp add: firstSeen_snoc js_set_add_def)
    have "buildMap h (xs @ [x]) = map (\<lambda>k. (k, if k = key_of h x then x else ?f xs k)) ?ks"
      unfolding step using mem by (simp add: update_tabulate_present firstSeen_distinct)
    also have "\<dots> = map (\<lambda>k. (k, ?f (xs @ [x]) k)) ?ks"
      by (simp only: f)
    finally show ?thesis by (simp only: ks)
  next
    case False
    then have nmem: "key_of h x \<notin> set ?ks" by (simp add: firstSeen_set)
    then have ks: "firstSeen (map (key_of h) (xs @ [x])) = ?ks @ [key_of h x]"
      by (simp add: firstSeen_snoc js_set_add_def)
    have "buildMap h (xs @ [x]) = map (\<lambda>k. (k, ?f xs k)) ?ks @ [(key_of h x, x)]"
      unfolding step using nmem by (simp add: update_tabulate_fresh)
    also have "\<dots> = map (\<lambda>k. (k, ?f (xs @ [x]) k)) (?ks @ [key_of h x])"
      using nmem by (simp only: f) auto
    finally show ?thesis by (simp only: ks)
  qed
qed

lemma last_filter_key:
  assumes "k \<in> key_of h ` set xs"
  shows "key_of h (last (filter (\<lambda>r. key_of h r = k) xs)) = k \<and>
         last (filter (\<lambda>r. key_of h r = k) xs) \<in> set xs"
proof -
  from assms have ne: "filter (\<lambda>r. key_of h r = k) xs \<noteq> []"
    by (auto simp: filter_empty_conv)
  then have "last (filter (\<lambda>r. key_of h r = k) xs) \<in> set (filter (\<lambda>r. key_of h r = k) xs)"
    by (rule last_in_set)
  then show ?thesis by simp
qed

lemma buildMap_entry_key:
  assumes "e \<in> set (buildMap h xs)"
  shows "key_of h (snd e) = fst e \<and> snd e \<in> set xs"
proof -
  from assms obtain k where k: "k \<in> set (firstSeen (map (key_of h) xs))"
    and e: "e = (k, last (filter (\<lambda>r. key_of h r = k) xs))"
    by (auto simp: buildMap_entries)
  from k have "k \<in> key_of h ` set xs" by (simp add: firstSeen_set)
  from last_filter_key [OF this] e show ?thesis by simp
qed

lemma mapValues_filter:
  "map snd (filter (\<lambda>e. P (fst e)) (buildMap h xs)) =
     filter (\<lambda>r. P (key_of h r)) (mapValues h xs)"
proof -
  have "filter (\<lambda>e. P (fst e)) (buildMap h xs) = filter (\<lambda>e. P (key_of h (snd e))) (buildMap h xs)"
    by (rule filter_cong) (simp_all add: buildMap_entry_key)
  then show ?thesis by (simp add: mapValues_def filter_map comp_def)
qed

lemma mapValues_one_per_key:
  "mapValues h xs =
     map (\<lambda>k. last (filter (\<lambda>r. key_of h r = k) xs)) (firstSeen (map (key_of h) xs))"
  by (simp add: mapValues_def buildMap_entries comp_def)

lemma OrgCompare_compareMetadata_maps_parts:
  "added (snd (OrgCompare_compareMetadata_maps h source target)) =
     filter (\<lambda>r. key_of h r \<notin> key_of h ` set target) (mapValues h source) \<and>
   removed (snd (OrgCompare_compareMetadata_maps h source target)) =
     filter (\<lambda>r. key_of h r \<notin> key_of h ` set source) (mapValues h target) \<and>
   mset (changed (snd (OrgCompare_compareMetadata_maps h source target))) +
   mset (unchanged (snd (OrgCompare_compareMetadata_maps h source target))) =
     mset (filter (\<lambda>r. key_of h r \<in> key_of h ` set target) (mapValues h source))"
proof -
  obtain h1 a c u where p1:
    "fold (maps_source_step (buildMap h target)) (buildMap h source) (h, [], [], []) = (h1, a, c, u)"
    and a: "a = [] @ map snd (filter (\<lambda>e. map_of (buildMap h target) (fst e) = None) (buildMap h source))"
    and m: "mset c + mset u = mset [] + mset [] +
       mset (map snd (filter (\<lambda>e. map_of (buildMap h target) (fst e) \<noteq> None) (buildMap h source)))"
    using maps_source_fold [of "buildMap h target" "buildMap h source" h "[]" "[]" "[]"] by blast
  obtain h2 where p2:
    "fold (maps_target_step (buildMap h source)) (buildMap h target) (h1, []) =
       (h2, [] @ map snd (filter (\<lambda>e. map_of (buildMap h source) (fst e) = None) (buildMap h target)))"
    using maps_target_fold [of "buildMap h source" "buildMap h target" h1 "[]"] by blast
  have res: "snd (OrgCompare_compareMetadata_maps h source target) =
      \<lparr>added = a,
       removed = map snd (filter (\<lambda>e. map_of (buildMap h source) (fst e) = None) (buildMap h target)),
       changed = c, unchanged = u\<rparr>"
    by (simp add: OrgCompare_compareMetadata_maps_def p1 p2)
  show ?thesis
    unfolding res using a m
    by (simp add: buildMap_None mapValues_filter [where P = "\<lambda>k. k \<notin> key_of h ` set target"]
        mapValues_filter [where P = "\<lambda>k. k \<notin> key_of h ` set source"]
        mapValues_filter [where P = "\<lambda>k. k \<in> key_of h ` set target"])
qed

lemma update_fresh_append:
  "k \<notin> fst ` set al \<Longrightarrow> AList.update k v al = al @ [(k, v)]"
  by (induction al) auto

lemma buildMap_unique_keys:
  "distinct (map (key_of h) xs) \<Longrightarrow> buildMap h xs = map (\<lambda>r. (key_of h r, r)) xs"
proof (induction xs rule: rev_induct)
  case Nil
  show ?case by (simp add: buildMap_def)
next
  case (snoc x xs)
  then have IH: "buildMap h xs = map (\<lambda>r. (key_of h r, r)) xs"
    and fresh: "key_of h x \<notin> key_of h ` set xs"
    by auto
  have "key_of h x \<notin> fst ` set (map (\<lambda>r. (key_of h r, r)) xs)"
    using fresh by (simp add: image_image)
  then show ?case
    by (simp add: buildMap_snoc IH update_fresh_append key_of_def)
qed

lemma mapValues_unique_keys: "distinct (map (key_of h) xs) \<Longrightarrow> mapValues h xs = xs"
  by (simp add: mapValues_def buildMap_unique_keys comp_def)

lemmas reconcile_eval = compareMetadata_def buildMap_def only_here_step_def both_sides_step_def
  mark_def reconcile_heap_def example_heap_def example_item_def key_of_def
  OrgCompare_compareMetadata_maps_def maps_source_step_def maps_target_step_def

text \<open>
  C1, as stated, fails: no copy of \<open>compareMetadata\<close> has a duplicate-key check or a
  \<open>throw\<close>. With two source items under one key and an empty target, all three copies
  return a result: the two array-walking copies with both items in \<open>added\<close>, the
  Map-walking copy with the second item only.
\<close>

theorem compareMetadata_duplicate_key_counterexample:
  "\<not> distinct (map (key_of reconcile_heap) [0, 1]) \<and>
   snd (OrgCompare_compareMetadata reconcile_heap [0, 1] []) =
     \<lparr>added = [0, 1], removed = [], changed = [], unchanged = []\<rparr> \<and>
   snd (MetadataService_compareMetadata reconcile_heap [0, 1] []) =
     \<lparr>added = [0, 1], removed = [], changed = [], unchanged = []\<rparr> \<and>
   snd (OrgCompare_compareMetadata_maps reconcile_heap [0, 1] []) =
     \<lparr>added = [1], removed = [], changed = [], unchanged = []\<rparr>"
  by (simp add: OrgCompare_compareMetadata_def MetadataService_compareMetadata_def reconcile_eval)

text \<open>
  C1, amended. For every pair of input collections, with or without repeated keys,
  every copy of \<open>compareMetadata\<close> returns a result. The two array-walking copies
  classify every item they visit: \<open>added\<close> holds every source item whose key no target
  item has, \<open>removed\<close> every target item whose key no source item has, both in input
  order and with repetitions kept, and \<open>changed\<close> and \<open>unchanged\<close> together hold every
  source item whose key some target item has, each occurrence once. The Map-walking
  copy classifies the values of its two Maps in the same way; a Map holds one item per
  key, the last of the array under that key, in the order in which the keys first
  occur, so there items with a repeated key are dropped without notice.
\<close>

theorem compareMetadata_returns_on_repeated_keys:
  "added (snd (compareMetadata hasChanges h source target)) =
     filter (\<lambda>r. key_of h r \<notin> key_of h ` set target) source \<and>
   removed (snd (compareMetadata hasChanges h source target)) =
     filter (\<lambda>r. key_of h r \<notin> key_of h ` set source) target \<and>
   mset (changed (snd (compareMetadata hasChanges h source target))) +
   mset (unchanged (snd (compareMetadata hasChanges h source target))) =
     mset (filter (\<lambda>r. key_of h r \<in> key_of h ` set target) source) \<and>
   added (snd (OrgCompare_compareMetadata_maps h source target)) =
     filter (\<lambda>r. key_of h r \<notin> key_of h ` set target) (mapValues h source) \<and>
   removed (snd (OrgCompare_compareMetadata_maps h source target)) =
     filter (\<lambda>r. key_of h r \<notin> key_of h ` set source) (mapValues h target) \<and>
   mset (changed (snd (OrgCompare_compareMetadata_maps h source target))) +
   mset (unchanged (snd (OrgCompare_compareMetadata_maps h source target))) =
     mset (filter (\<lambda>r. key_of h r \<in> key_of h ` set target) (mapValues h source)) \<and>
   mapValues h items =
     map (\<lambda>k. last (filter (\<lambda>r. key_of h r = k) items)) (firstSeen (map (key_of h) items))"
proof -
  note arrays = compareMetadata_parts [of hasChanges h source target]
  note maps = OrgCompare_compareMetadata_maps_parts [of h source target]
  note vals = mapValues_one_per_key [of h items]
  from arrays have
    "added (snd (compareMetadata hasChanges h source target)) =
       filter (\<lambda>r. key_of h r \<notin> key_of h ` set target) source \<and>
     removed (snd (compareMetadata hasChanges h source target)) =
       filter (\<lambda>r. key_of h r \<notin> key_of h ` set source) target \<and>
     mset (changed (snd (compareMetadata hasChanges h source target))) +
     mset (unchanged (snd (compareMetadata hasChanges h source target))) =
       mset (filter (\<lambda>r. key_of h r \<in> key_of h ` set target) source)"
    by auto
  with maps vals show ?thesis by (simp only: simp_thms)
qed

text \<open>
  C4 on the \<open>MetadataService\<close> copy: \<open>hasChanges\<close> there compares \<open>lastModifiedDate\<close>.
  Two items under one key with different content and the same date are classified
  unchanged; two with the same content and different dates are classified changed.
\<close>

theorem MetadataService_hasChanges_compares_dates:
  "key_of reconcile_heap 0 = key_of reconcile_heap 1 \<and>
   sourceValue (reconcile_heap 0) \<noteq> sourceValue (reconcile_heap 1) \<and>
   snd (MetadataService_compareMetadata reconcile_heap [0] [1]) =
     \<lparr>added = [], removed = [], changed = [], unchanged = [0]\<rparr> \<and>
   key_of reconcile_heap 0 = key_of reconcile_heap 2 \<and>
   sourceValue (reconcile_heap 0) = sourceValue (reconcile_heap 2) \<and>
   snd (MetadataService_compareMetadata reconcile_heap [0] [2]) =
     \<lparr>added = [], removed = [], changed = [0], unchanged = []\<rparr>"
  by (simp add: MetadataService_compareMetadata_def MetadataService_hasChanges_def reconcile_eval)

text \<open>
  C7. When the keys of each side are unique, the four arrays returned by
  \<open>compareMetadata\<close> are exhaustive and disjoint: the keys of \<open>added\<close>, \<open>removed\<close>,
  \<open>changed\<close> and \<open>unchanged\<close>, read one after the other, contain no key twice (so no
  object is in two arrays or twice in one) and are exactly the keys of the two inputs,
  and the four lengths sum to the size of the union of the two key sets. This holds for
  either \<open>hasChanges\<close>.
\<close>

theorem compareMetadata_partition:
  assumes ds: "distinct (map (key_of h) source)" and dt: "distinct (map (key_of h) target)"
    and res: "compareMetadata hasChanges h source target = (h', cr)"
  shows "distinct (map (key_of h') (allItems cr)) \<and>
         distinct (allItems cr) \<and>
         set (map (key_of h') (allItems cr)) = key_of h ` set source \<union> key_of h ` set target \<and>
         length (added cr) + length (removed cr) + length (changed cr) + length (unchanged cr) =
           card (key_of h ` set source \<union> key_of h ` set target)"
proof -
  let ?k = "key_of h"
  let ?rest = "filter (\<lambda>r. ?k r \<notin> ?k ` set source) target"
  from compareMetadata_parts [of hasChanges h source target] res
  have ag: "agree h h'"
    and a: "added cr = filter (\<lambda>r. ?k r \<notin> ?k ` set target) source"
    and r: "removed cr = ?rest"
    and cu: "mset (changed cr) + mset (unchanged cr) =
       mset (filter (\<lambda>r. ?k r \<in> ?k ` set target) source)"
    by auto
  have k: "key_of h' = ?k" using ag by (rule agree_key_of)
  have "mset (allItems cr) =
      mset (added cr) + (mset (changed cr) + mset (unchanged cr)) + mset (removed cr)"
    by (simp add: allItems_def)
  also have "\<dots> = mset source + mset ?rest"
    unfolding a r cu by (simp add: union_commute)
  finally have all: "mset (allItems cr) = mset (source @ ?rest)" by simp
  then have keys: "mset (map ?k (allItems cr)) = mset (map ?k (source @ ?rest))"
    by (metis mset_map)
  have "set (map ?k source) \<inter> set (map ?k ?rest) = {}"
    by (auto simp: image_iff)
  then have d: "distinct (map ?k (source @ ?rest))"
    using ds dt by (simp add: distinct_map_filter)
  have c1: "distinct (map (key_of h') (allItems cr))"
    using keys d k by (metis mset_eq_imp_distinct_iff)
  have s: "set (map ?k (allItems cr)) = set (map ?k (source @ ?rest))"
    using keys by (rule mset_eq_setD)
  have c2: "set (map (key_of h') (allItems cr)) = ?k ` set source \<union> ?k ` set target"
    unfolding k s by auto
  have "length (allItems cr) = length (map ?k (source @ ?rest))"
    using all by (metis length_map size_mset)
  also have "\<dots> = card (set (map ?k (source @ ?rest)))"
    using d by (simp only: distinct_card)
  also have "set (map ?k (source @ ?rest)) = ?k ` set source \<union> ?k ` set target"
    by auto
  finally have c3: "length (added cr) + length (removed cr) + length (changed cr) +
      length (unchanged cr) = card (?k ` set source \<union> ?k ` set target)"
    by (simp add: allItems_def)
  from c1 have c0: "distinct (allItems cr)" by (simp add: distinct_map)
  from c0 c1 c2 c3 show ?thesis by simp
qed

text \<open>
  Witness for C7: source keys \<open>ApexClass/Foo\<close>, \<open>ApexClass/Bar\<close>; target keys
  \<open>ApexClass/Foo\<close>, \<open>CustomObject/Account\<close>. One item each is added, removed and
  changed, and the union of the key sets has three members.
\<close>

theorem compareMetadata_partition_witness:
  "distinct (map (key_of reconcile_heap) [0, 3]) \<and>
   distinct (map (key_of reconcile_heap) [1, 4]) \<and>
   snd (OrgCompare_compareMetadata reconcile_heap [0, 3] [1, 4]) =
     \<lparr>added = [3], removed = [4], changed = [0], unchanged = []\<rparr> \<and>
   card (key_of reconcile_heap ` set [0, 3] \<union> key_of reconcile_heap ` set [1, 4]) = 3"
proof -
  have ds: "distinct (map (key_of reconcile_heap) [0, 3])"
    and dt: "distinct (map (key_of reconcile_heap) [1, 4])"
    by (simp_all add: reconcile_eval)
  have cr: "snd (compareMetadata OrgCompare_hasChanges reconcile_heap [0, 3] [1, 4]) =
      \<lparr>added = [3], removed = [4], changed = [0], unchanged = []\<rparr>"
    by (simp add: OrgCompare_hasChanges_def reconcile_eval)
  then have res: "compareMetadata OrgCompare_hasChanges reconcile_heap [0, 3] [1, 4] =
      (fst (compareMetadata OrgCompare_hasChanges reconcile_heap [0, 3] [1, 4]),
       \<lparr>added = [3], removed = [4], changed = [0], unchanged = []\<rparr>)"
    by (metis prod.collapse)
  from compareMetadata_partition [OF ds dt res] ds dt cr show ?thesis
    by (simp add: OrgCompare_compareMetadata_def)
qed

text \<open>
  The Map-walking copy yields the same partition when the keys of each side are unique:
  its Maps then hold every item of their array.
\<close>

lemma OrgCompare_compareMetadata_maps_partition:
  assumes ds: "distinct (map (key_of h) source)" and dt: "distinct (map (key_of h) target)"
    and res: "snd (OrgCompare_compareMetadata_maps h source target) = cr"
  shows "distinct (map (key_of h) (allItems cr)) \<and>
         set (map (key_of h) (allItems cr)) = key_of h ` set source \<union> key_of h ` set target \<and>
         length (added cr) + length (removed cr) + length (changed cr) + length (unchanged cr) =
           card (key_of h ` set source \<union> key_of h ` set target)"
proof -
  let ?k = "key_of h"
  let ?rest = "filter (\<lambda>r. ?k r \<notin> ?k ` set source) target"
  from OrgCompare_compareMetadata_maps_parts [of h source target] res ds dt
  have a: "added cr = filter (\<lambda>r. ?k r \<notin> ?k ` set target) source"
    and r: "removed cr = ?rest"
    and cu: "mset (changed cr) + mset (unchanged cr) =
       mset (filter (\<lambda>r. ?k r \<in> ?k ` set target) source)"
    by (auto simp: mapValues_unique_keys)
  have "mset (allItems cr) =
      mset (added cr) + (mset (changed cr) + mset (unchanged cr)) + mset (removed cr)"
    by (simp add: allItems_def)
  also have "\<dots> = mset source + mset ?rest"
    unfolding a r cu by (simp add: union_commute)
  finally have all: "mset (allItems cr) = mset (source @ ?rest)" by simp
  then have keys: "mset (map ?k (allItems cr)) = mset (map ?k (source @ ?rest))"
    by (metis mset_map)
  have "set (map ?k source) \<inter> set (map ?k ?rest) = {}"
    by (auto simp: image_iff)
  then have d: "distinct (map ?k (source @ ?rest))"
    using ds dt by (simp add: distinct_map_filter)
  have c1: "distinct (map ?k (allItems cr))"
    using keys d by (metis mset_eq_imp_distinct_iff)
  have s: "set (map ?k (allItems cr)) = set (map ?k (source @ ?rest))"
    using keys by (rule mset_eq_setD)
  have c2: "set (map ?k (allItems cr)) = ?k ` set source \<union> ?k ` set target"
    unfolding s by auto
  have "length (allItems cr) = length (map ?k (source @ ?rest))"
    using all by (metis length_map size_mset)
  also have "\<dots> = card (set (map ?k (source @ ?rest)))"
    using d by (simp only: distinct_card)
  also have "set (map ?k (source @ ?rest)) = ?k ` set source \<union> ?k ` set target"
    by auto
  finally have c3: "length (added cr) + length (removed cr) + length (changed cr) +
      length (unchanged cr) = card (?k ` set source \<union> ?k ` set target)"
    by (simp add: allItems_def)
  from c1 c2 c3 show ?thesis by simp
qed

section \<open>Results about the line differencer\<close>

lemma js_split_not_Nil: "js_split sep s \<noteq> []"
  by (induction s) (simp_all split: list.splits)

lemma js_split_length: "length (js_split sep s) = Suc (count_list s sep)"
  by (induction s) (auto split: list.splits)

lemma js_split_no_sep: "piece \<in> set (js_split sep s) \<Longrightarrow> sep \<notin> set piece"
  by (induction s arbitrary: piece) (auto split: list.splits if_splits)

lemma generateDiffContent_viewer_selected:
  "generateDiffContent_viewer (Some item) =
     Some (viewer_diff (or_empty (sourceValue item)) (or_empty (targetValue item)))"
  by (simp add: generateDiffContent_viewer_def)

lemma generateDiffContent_lines_selected:
  "generateDiffContent_lines (Some item) =
     Some (lines_diff (or_empty (sourceValue item)) (or_empty (targetValue item)))"
  by (simp add: generateDiffContent_lines_def)

lemma generateDiffContent_nothing_selected:
  "generateDiffContent_viewer None = None \<and> generateDiffContent_lines None = None"
  by (simp add: generateDiffContent_viewer_def generateDiffContent_lines_def)

lemma or_empty_js_index:
  "or_empty (js_index xs i) = (if i < length xs then xs ! i else [])"
  by (simp add: or_empty_def js_index_def truthy_def)

lemma line_at_beyond: "lineCount text \<le> i \<Longrightarrow> line_at text i = []"
  by (simp add: line_at_def lineCount_def or_empty_js_index)

lemma viewer_diff_lengths:
  "length (sourceLines (viewer_diff a b)) = max (lineCount a) (lineCount b) \<and>
   length (targetLines (viewer_diff a b)) = max (lineCount a) (lineCount b)"
  by (simp add: viewer_diff_def lineCount_def Let_def)

lemma lines_diff_length: "length (lines_diff a b) = max (lineCount a) (lineCount b)"
  by (simp add: lines_diff_def lineCount_def Let_def)

lemma viewer_diff_source_nth:
  assumes "i < max (lineCount a) (lineCount b)"
  shows "sourceLines (viewer_diff a b) ! i =
    \<lparr>lineNumber = i + 1, content = line_at a i,
     lineType = viewer_lineType (line_at a i) (line_at b i)\<rparr>"
  using assms by (simp add: viewer_diff_def lineCount_def line_at_def Let_def)

lemma viewer_diff_target_nth:
  assumes "i < max (lineCount a) (lineCount b)"
  shows "targetLines (viewer_diff a b) ! i =
    \<lparr>lineNumber = i + 1, content = line_at b i,
     lineType = viewer_lineType (line_at a i) (line_at b i)\<rparr>"
  using assms by (simp add: viewer_diff_def lineCount_def line_at_def Let_def)

lemma lines_diff_nth:
  assumes "i < max (lineCount a) (lineCount b)"
  shows "lines_diff a b ! i =
    \<lparr>dl_lineNumber = i + 1, dl_sourceContent = line_at a i, dl_targetContent = line_at b i,
     dl_type = fst (lines_lineType (line_at a i) (line_at b i)),
     dl_diffLineClass = snd (lines_lineType (line_at a i) (line_at b i))\<rparr>"
  using assms by (simp add: lines_diff_def lineCount_def line_at_def Let_def)

lemma js_join_split: "js_join sep (js_split sep s) = s"
proof (induction s)
  case Nil
  show ?case by simp
next
  case (Cons c cs)
  obtain piece pieces where sp: "js_split sep cs = piece # pieces"
    using js_split_not_Nil [of sep cs] by (cases "js_split sep cs") auto
  with Cons show ?case
    by (cases pieces) auto
qed

text \<open>
  C8. For every pair of texts, both copies of \<open>generateDiffContent\<close> produce exactly
  \<open>max (lineCount a) (lineCount b)\<close> entries (the diff-viewer copy in each of its two
  columns), where the lines of a text are the pieces of splitting it at newlines, one
  more than the text has newlines. The line of a text at an index beyond its last line
  is the empty string, and every entry carries the two lines of its index.
\<close>

theorem diff_entry_count:
  "length (sourceLines (viewer_diff a b)) = max (lineCount a) (lineCount b) \<and>
   length (targetLines (viewer_diff a b)) = max (lineCount a) (lineCount b) \<and>
   length (lines_diff a b) = max (lineCount a) (lineCount b) \<and>
   lineCount a = Suc (count_list a CHR 0x0A) \<and>
   (\<forall>i. lineCount a \<le> i \<longrightarrow> line_at a i = []) \<and>
   (\<forall>i < max (lineCount a) (lineCount b).
      content (sourceLines (viewer_diff a b) ! i) = line_at a i \<and>
      content (targetLines (viewer_diff a b) ! i) = line_at b i \<and>
      dl_sourceContent (lines_diff a b ! i) = line_at a i \<and>
      dl_targetContent (lines_diff a b ! i) = line_at b i)"
  by (simp add: viewer_diff_lengths lines_diff_length line_at_beyond viewer_diff_source_nth
      viewer_diff_target_nth lines_diff_nth lineCount_def js_split_length)

text \<open>
  Witness for C8: three lines against two; the third entry's right-hand line is empty.
\<close>

theorem diff_entry_count_witness:
  "length (sourceLines (viewer_diff ''a\<newline>b\<newline>c'' ''a\<newline>x'')) = 3 \<and>
   length (lines_diff ''a\<newline>b\<newline>c'' ''a\<newline>x'') = 3 \<and>
   lineCount ''a\<newline>x'' \<le> 2 \<and>
   content (targetLines (viewer_diff ''a\<newline>b\<newline>c'' ''a\<newline>x'') ! 2) = [] \<and>
   dl_targetContent (lines_diff ''a\<newline>b\<newline>c'' ''a\<newline>x'' ! 2) = []"
proof -
  have n: "lineCount ''a\<newline>b\<newline>c'' = 3" "lineCount ''a\<newline>x'' = 2"
    by (simp_all add: lineCount_def)
  have e: "line_at ''a\<newline>x'' 2 = []"
    using diff_entry_count [of "''a\<newline>x''" "''a\<newline>b\<newline>c''"] n by simp
  show ?thesis
    using diff_entry_count [of "''a\<newline>b\<newline>c''" "''a\<newline>x''"] n e by simp
qed

text \<open>
  C5 on the copy that feeds the diff viewer: for a line present on one side only, its
  labels are the reverse of what the claim states and of what the other copy yields.
  With a non-empty left line and an empty right line the claim and the other copy say
  \<open>removed\<close> and this copy yields \<open>added\<close>; with an empty left line and a non-empty right
  line they say \<open>added\<close> and this copy yields \<open>removed\<close>.
\<close>

theorem generateDiffContent_viewer_swaps_added_removed:
  "generateDiffContent_viewer
     (Some ((example_item ''ApexClass'' ''Foo'')\<lparr>sourceValue := Some ''a'', targetValue := Some []\<rparr>)) =
   Some \<lparr>sourceLines = [\<lparr>lineNumber = 1, content = ''a'', lineType = Added\<rparr>],
         targetLines = [\<lparr>lineNumber = 1, content = [], lineType = Added\<rparr>]\<rparr> \<and>
   generateDiffContent_lines
     (Some ((example_item ''ApexClass'' ''Foo'')\<lparr>sourceValue := Some ''a'', targetValue := Some []\<rparr>)) =
   Some [\<lparr>dl_lineNumber = 1, dl_sourceContent = ''a'', dl_targetContent = [],
          dl_type = Removed, dl_diffLineClass = ''diff-line-removed''\<rparr>] \<and>
   generateDiffContent_viewer
     (Some ((example_item ''ApexClass'' ''Foo'')\<lparr>sourceValue := Some [], targetValue := Some ''b''\<rparr>)) =
   Some \<lparr>sourceLines = [\<lparr>lineNumber = 1, content = [], lineType = Removed\<rparr>],
         targetLines = [\<lparr>lineNumber = 1, content = ''b'', lineType = Removed\<rparr>]\<rparr> \<and>
   generateDiffContent_lines
     (Some ((example_item ''ApexClass'' ''Foo'')\<lparr>sourceValue := Some [], targetValue := Some ''b''\<rparr>)) =
   Some [\<lparr>dl_lineNumber = 1, dl_sourceContent = [], dl_targetContent = ''b'',
          dl_type = Added, dl_diffLineClass = ''diff-line-added''\<rparr>]"
  by (simp add: generateDiffContent_viewer_def viewer_diff_def viewer_lineType_def
      generateDiffContent_lines_def lines_diff_def lines_lineType_def or_empty_def
      js_index_def truthy_def example_item_def)

text \<open>
  The label at every index, in both copies. An entry is \<open>unchanged\<close> when the two lines
  are equal and \<open>changed\<close> exactly when both are non-empty and different. For a line
  present on one side only, the copy that builds one array of diff lines yields
  \<open>removed\<close> when the left line is non-empty and the right line is empty and \<open>added\<close>
  when the left line is empty and the right line is non-empty; the copy that feeds the
  diff viewer yields the opposite labels, the same one in both columns.
\<close>

theorem diff_line_classification:
  assumes "i < max (lineCount a) (lineCount b)"
  shows
   "lineType (sourceLines (viewer_diff a b) ! i) =
      (if line_at a i = line_at b i then Unchanged
       else if line_at a i \<noteq> [] \<and> line_at b i = [] then Added
       else if line_at a i = [] \<and> line_at b i \<noteq> [] then Removed
       else Changed) \<and>
    lineType (targetLines (viewer_diff a b) ! i) = lineType (sourceLines (viewer_diff a b) ! i) \<and>
    dl_type (lines_diff a b ! i) =
      (if line_at a i = line_at b i then Unchanged
       else if line_at a i \<noteq> [] \<and> line_at b i = [] then Removed
       else if line_at a i = [] \<and> line_at b i \<noteq> [] then Added
       else Changed) \<and>
    ((lineType (sourceLines (viewer_diff a b) ! i) = Changed) =
       (line_at a i \<noteq> [] \<and> line_at b i \<noteq> [] \<and> line_at a i \<noteq> line_at b i)) \<and>
    ((dl_type (lines_diff a b ! i) = Changed) =
       (line_at a i \<noteq> [] \<and> line_at b i \<noteq> [] \<and> line_at a i \<noteq> line_at b i))"
  using assms
  by (auto simp: viewer_diff_source_nth viewer_diff_target_nth lines_diff_nth
      viewer_lineType_def lines_lineType_def truthy_def)

text \<open>
  An instance: at the third index the left line is \<open>c\<close> and the right line is empty.
\<close>

theorem diff_line_classification_witness:
  "2 < max (lineCount ''a\<newline>b\<newline>c\<newline>\<newline>q'') (lineCount ''a\<newline>x\<newline>\<newline>z'') \<and>
   line_at ''a\<newline>b\<newline>c\<newline>\<newline>q'' 2 = ''c'' \<and> line_at ''a\<newline>x\<newline>\<newline>z'' 2 = [] \<and>
   lineType (sourceLines (viewer_diff ''a\<newline>b\<newline>c\<newline>\<newline>q'' ''a\<newline>x\<newline>\<newline>z'') ! 2) = Added \<and>
   dl_type (lines_diff ''a\<newline>b\<newline>c\<newline>\<newline>q'' ''a\<newline>x\<newline>\<newline>z'' ! 2) = Removed"
proof -
  have i: "2 < max (lineCount ''a\<newline>b\<newline>c\<newline>\<newline>q'') (lineCount ''a\<newline>x\<newline>\<newline>z'')"
    by (simp add: lineCount_def)
  have l: "line_at ''a\<newline>b\<newline>c\<newline>\<newline>q'' 2 = ''c''" "line_at ''a\<newline>x\<newline>\<newline>z'' 2 = []"
    by (simp_all add: line_at_def or_empty_def js_index_def truthy_def)
  from diff_line_classification [OF i] i l show ?thesis by simp
qed

section \<open>Results about the dependency expander\<close>

lemma fold_js_set_add_firstSeen: "fold js_set_add ys (firstSeen xs) = firstSeen (xs @ ys)"
  by (simp add: firstSeen_def)

lemma autoWire_step_firstSeen:
  "autoWire_step h cr item (firstSeen pre) = firstSeen (pre @ item # relatedItems h cr item)"
proof -
  have "js_set_add item (firstSeen pre) = firstSeen (pre @ [item])"
    by (simp add: firstSeen_snoc)
  then show ?thesis
    by (simp add: autoWire_step_def fold_js_set_add_firstSeen)
qed

lemma autoWire_fold_firstSeen:
  "fold (autoWire_step h cr) sel (firstSeen pre) =
     firstSeen (pre @ concat (map (\<lambda>item. item # relatedItems h cr item) sel))"
proof (induction sel arbitrary: pre)
  case Nil
  show ?case by simp
next
  case (Cons x xs)
  show ?case
    using Cons.IH [of "pre @ x # relatedItems h cr x"]
    by (simp add: autoWire_step_firstSeen)
qed

lemma autoWireDependencies_single_pass:
  "autoWireDependencies h cr sel =
     firstSeen (concat (map (\<lambda>item. item # relatedItems h cr item) sel))"
proof -
  have "firstSeen ([] :: ref list) = []" by (simp add: firstSeen_def)
  with autoWire_fold_firstSeen [of h cr sel "[]"] show ?thesis
    by (simp add: autoWireDependencies_def)
qed

lemma autoWireDependencies_set:
  "set (autoWireDependencies h cr sel) =
     set sel \<union> (\<Union>item \<in> set sel. set (relatedItems h cr item))"
  by (auto simp: autoWireDependencies_single_pass firstSeen_set)

lemmas wiring_eval = autoWireDependencies_def autoWire_step_def relatedItems_def
  METADATA_TYPES_def wiring_heap_def wiring_universe_def example_heap_def example_item_def
  js_set_add_def allItems_def js_index_def

text \<open>
  C3, as stated, fails: the expansion is one pass over the seed, not a closure. From the
  seed field \<open>Account.Phone\<close> it adds the parent object \<open>Account\<close>; the object's own rule
  would pull in the field \<open>Account.Fax\<close>, which the first run leaves out and a second run
  on the result adds.
\<close>

theorem autoWireDependencies_closure_counterexample:
  "autoWireDependencies wiring_heap wiring_universe [0] = [0, 1] \<and>
   relatedItems wiring_heap wiring_universe 1 = [0, 2] \<and>
   autoWireDependencies wiring_heap wiring_universe
     (autoWireDependencies wiring_heap wiring_universe [0]) = [0, 1, 2] \<and>
   autoWireDependencies wiring_heap wiring_universe
     (autoWireDependencies wiring_heap wiring_universe [0]) \<noteq>
   autoWireDependencies wiring_heap wiring_universe [0]"
proof -
  have a: "autoWireDependencies wiring_heap wiring_universe [0] = [0, 1]"
    by (simp add: wiring_eval)
  have b: "relatedItems wiring_heap wiring_universe 1 = [0, 2]"
    by (simp add: wiring_eval)
  have c: "autoWireDependencies wiring_heap wiring_universe [0, 1] = [0, 1, 2]"
    by (simp add: wiring_eval)
  from a b c show ?thesis by simp
qed

text \<open>
  C3, amended. For every seed and universe, \<open>autoWireDependencies\<close> makes one pass over
  the seed: the result is the seed items in order, each followed by the items its own
  rule selects from the universe, with every repeated reference dropped after its first
  insertion. The result contains every seed item and no reference twice. Only seed items
  are expansion sources; an item found by the pass is not expanded, so running the
  function again on its result can add further items.
\<close>

theorem autoWireDependencies_one_pass_over_seed:
  "autoWireDependencies h cr seed =
     firstSeen (concat (map (\<lambda>item. item # relatedItems h cr item) seed)) \<and>
   set (autoWireDependencies h cr seed) =
     set seed \<union> (\<Union>item \<in> set seed. set (relatedItems h cr item)) \<and>
   set seed \<subseteq> set (autoWireDependencies h cr seed) \<and>
   distinct (autoWireDependencies h cr seed)"
  by (simp add: autoWireDependencies_set)
     (simp add: autoWireDependencies_single_pass firstSeen_distinct)

text \<open>
  C9. For an item whose type has no entry in \<open>METADATA_TYPES\<close>, or an entry whose
  \<open>autoWire\<close> is \<open>null\<close>, the expansion raises nothing and treats the item as having no
  rule: no related item is selected for it, the callback adds the item itself and nothing
  else, and a selected item of this kind is in the result.
\<close>

theorem autoWireDependencies_no_rule:
  assumes "find (\<lambda>t. cfg_type t = type (h item)) METADATA_TYPES = None \<or>
           (\<exists>typeConfig. find (\<lambda>t. cfg_type t = type (h item)) METADATA_TYPES = Some typeConfig \<and>
                          autoWire typeConfig = None)"
  shows "relatedItems h cr item = [] \<and>
         autoWire_step h cr item autoWiredItems = js_set_add item autoWiredItems \<and>
         (item \<in> set selectedItems \<longrightarrow> item \<in> set (autoWireDependencies h cr selectedItems))"
proof -
  from assms have r: "relatedItems h cr item = []"
    by (auto simp: relatedItems_def)
  then show ?thesis
    by (simp add: autoWire_step_def autoWireDependencies_set)
qed

text \<open>
  Witness for C9: reference 4 has type \<open>Flow\<close>, which has no entry, and reference 3 has
  type \<open>Profile\<close>, whose entry has a \<open>null\<close> rule.
\<close>

theorem autoWireDependencies_no_rule_witness:
  "find (\<lambda>t. cfg_type t = type (wiring_heap 4)) METADATA_TYPES = None \<and>
   (\<exists>typeConfig. find (\<lambda>t. cfg_type t = type (wiring_heap 3)) METADATA_TYPES = Some typeConfig \<and>
                  autoWire typeConfig = None) \<and>
   relatedItems wiring_heap wiring_universe 4 = [] \<and>
   relatedItems wiring_heap wiring_universe 3 = [] \<and>
   4 \<in> set (autoWireDependencies wiring_heap wiring_universe [0, 4, 3]) \<and>
   3 \<in> set (autoWireDependencies wiring_heap wiring_universe [0, 4, 3])"
proof -
  have none: "find (\<lambda>t. cfg_type t = type (wiring_heap 4)) METADATA_TYPES = None"
    by (simp add: METADATA_TYPES_def wiring_heap_def example_heap_def example_item_def)
  have null: "\<exists>typeConfig. find (\<lambda>t. cfg_type t = type (wiring_heap 3)) METADATA_TYPES = Some typeConfig \<and>
                  autoWire typeConfig = None"
    by (simp add: METADATA_TYPES_def wiring_heap_def example_heap_def example_item_def)
  from autoWireDependencies_no_rule [of wiring_heap 4 wiring_universe _ "[0, 4, 3]"]
       autoWireDependencies_no_rule [of wiring_heap 3 wiring_universe _ "[0, 4, 3]"]
       none null
  show ?thesis by simp
qed

end
